theory Spec2Isabelle
  imports Complex_Main "HOL-Library.Sublist"
begin

section \<open>Strings\<close>

text \<open>
  A JavaScript string is modelled as a \<^typ>\<open>string\<close>, the sequence of the bytes of its
  UTF-8 form. The string methods the detection bridge uses are \<open>startsWith\<close>,
  \<open>includes\<close> (here \<open>includes_str\<close>) and \<open>toLowerCase\<close>; \<open>substring(6)\<close>, taken after a
  prefix of six ASCII characters, is \<^term>\<open>drop 6\<close>.
\<close>

definition startsWith :: "string \<Rightarrow> string \<Rightarrow> bool" where
  "startsWith s p = prefix p s"

fun includes_str :: "string \<Rightarrow> string \<Rightarrow> bool" where
  "includes_str [] sub = (sub = [])"
| "includes_str (c # cs) sub = (startsWith (c # cs) sub \<or> includes_str cs sub)"

definition toLowerChar :: "char \<Rightarrow> char" where
  "toLowerChar c =
     (let n = (of_char c :: nat) in if 65 \<le> n \<and> n \<le> 90 then char_of (n + 32) else c)"

text \<open>
  \<open>toLowerCase\<close> lowers the letters A to Z, the Kelvin sign U+212A to \<open>k\<close>, and the
  capital I with dot above U+0130 to \<open>i\<close> followed by the combining dot U+0307. These
  are all the characters whose lower-case form has an ASCII letter in it. Every other
  character outside ASCII keeps its bytes here; JavaScript lowers it to a character that
  is outside ASCII as well, and the bridge only searches the result for ASCII words.
\<close>

definition KELVIN_SIGN :: string where
  "KELVIN_SIGN = [CHR 0xE2, CHR 0x84, CHR 0xAA]"

definition CAPITAL_I_WITH_DOT :: string where
  "CAPITAL_I_WITH_DOT = [CHR 0xC4, CHR 0xB0]"

definition COMBINING_DOT :: string where
  "COMBINING_DOT = [CHR 0xCC, CHR 0x87]"

fun toLowerCase :: "string \<Rightarrow> string" where
  "toLowerCase [] = []"
| "toLowerCase (c # cs) =
     (if startsWith (c # cs) KELVIN_SIGN then CHR ''k'' # toLowerCase (drop 2 cs)
      else if startsWith (c # cs) CAPITAL_I_WITH_DOT
        then CHR ''i'' # COMBINING_DOT @ toLowerCase (drop 1 cs)
      else toLowerChar c # toLowerCase cs)"

text \<open>\<open>s.split('\n')\<close>: the pieces between line feeds, one more than there are line feeds.\<close>

fun split_lines :: "string \<Rightarrow> string list" where
  "split_lines [] = [[]]"
| "split_lines (c # cs) =
     (if c = CHR 0x0A then [] # split_lines cs
      else (case split_lines cs of [] \<Rightarrow> [[c]] | l # ls \<Rightarrow> (c # l) # ls))"

section \<open>JavaScript values\<close>

text \<open>
  The values \<open>JSON.parse\<close> produces, and \<open>undefined\<close>, which a missing property reads as.
  An object is the list of its fields, one per key, as \<open>JSON.parse\<close> leaves it; a field is
  read by key.
\<close>

datatype jsvalue =
    JUndefined
  | JNull
  | JBool bool
  | JNum rat
  | JStr string
  | JArr "jsvalue list"
  | JObj "(string \<times> jsvalue) list"

text \<open>\<open>Boolean(v)\<close>, the test behind \<open>!v\<close>, \<open>a && b\<close> and \<open>filter(Boolean)\<close>.\<close>

fun truthy :: "jsvalue \<Rightarrow> bool" where
  "truthy JUndefined = False"
| "truthy JNull = False"
| "truthy (JBool b) = b"
| "truthy (JNum n) = (n \<noteq> 0)"
| "truthy (JStr s) = (s \<noteq> [])"
| "truthy (JArr xs) = True"
| "truthy (JObj kvs) = True"

fun isArray :: "jsvalue \<Rightarrow> bool" where
  "isArray (JArr xs) = True"
| "isArray v = False"

text \<open>
  \<open>v.k\<close> for the keys the bridge reads (\<open>output\<close>, \<open>data\<close>, \<open>value\<close>, \<open>url\<close>, \<open>path\<close>,
  \<open>name\<close>), on a value that is neither \<open>null\<close> nor \<open>undefined\<close>: an object gives the
  field or \<open>undefined\<close>, a primitive or an array gives \<open>undefined\<close>. The callers deal with
  \<open>null\<close> and \<open>undefined\<close> themselves, where JavaScript throws a TypeError.
\<close>

fun getProp :: "jsvalue \<Rightarrow> string \<Rightarrow> jsvalue" where
  "getProp (JObj kvs) k = (case map_of kvs k of None \<Rightarrow> JUndefined | Some v \<Rightarrow> v)"
| "getProp v k = JUndefined"

text \<open>\<open>v?.k\<close>: optional chaining gives \<open>undefined\<close> on \<open>null\<close> and \<open>undefined\<close>.\<close>

fun optProp :: "jsvalue \<Rightarrow> string \<Rightarrow> jsvalue" where
  "optProp JUndefined k = JUndefined"
| "optProp JNull k = JUndefined"
| "optProp v k = getProp v k"

section \<open>URL normalization\<close>

definition BASE :: string where
  "BASE = ''https://utkarsh-23-pothole-yolo.hf.space''"

definition toAbsoluteGradioFileUrl :: "string \<Rightarrow> string" where
  "toAbsoluteGradioFileUrl rel =
     (if rel = [] then []
      else if startsWith rel ''http'' then rel
      else if startsWith rel ''/file='' then BASE @ rel
      else if startsWith rel ''/gradio_api/file='' then BASE @ rel
      else if startsWith rel ''/gradio_api/file/'' then BASE @ rel
      else if startsWith rel ''/tmp/'' then BASE @ ''/file='' @ rel
      else if startsWith rel ''tmp/'' then BASE @ ''/file=/'' @ rel
      else if startsWith rel ''file='' then BASE @ ''/'' @ rel
      else if startsWith rel ''file/'' then BASE @ ''/gradio_api/'' @ rel
      else (let needsSlash = \<not> startsWith rel ''/''
            in BASE @ ''/file='' @ (if needsSlash then ''/'' else []) @ rel))"

section \<open>URL extraction from a stream frame\<close>

text \<open>
  The two \<open>for\<close> loops of \<open>extractUrlFromOutput\<close> have the same body: extract from the
  item, return the result when it is not empty, go on otherwise. \<open>first_url f\<close> is that
  loop, followed by the \<open>return ''\<close> both loops fall through to.
\<close>

fun first_url :: "(jsvalue \<Rightarrow> string) \<Rightarrow> jsvalue list \<Rightarrow> string" where
  "first_url f [] = []"
| "first_url f (item # items) = (let u = f item in if u \<noteq> [] then u else first_url f items)"

lemma first_url_cong [fundef_cong]:
  "xs = ys \<Longrightarrow> (\<And>x. x \<in> set ys \<Longrightarrow> f x = g x) \<Longrightarrow> first_url f xs = first_url g ys"
  by (induction ys arbitrary: xs) (auto simp: Let_def)

definition candidates :: "jsvalue \<Rightarrow> jsvalue list" where
  "candidates obj =
     filter truthy
       [getProp obj ''url'', getProp obj ''path'', getProp obj ''name'', getProp obj ''value'',
        optProp (getProp obj ''data'') ''url'', optProp (getProp obj ''data'') ''path'',
        optProp (getProp obj ''data'') ''name'']"

lemma size_map_of: "map_of kvs k = Some v \<Longrightarrow> size v < Suc (size_list (size_prod (\<lambda>_. 0) size) kvs)"
  by (induction kvs) (auto split: if_splits)

lemma size_prop: "getProp v k \<noteq> JUndefined \<Longrightarrow> size (getProp v k) < size v"
  by (cases v) (auto split: option.splits dest: size_map_of)

lemma size_opt_prop: "optProp v k \<noteq> JUndefined \<Longrightarrow> size (optProp v k) < size v"
  by (cases v) (auto split: option.splits dest: size_map_of)

lemma size_candidates: "c \<in> set (candidates obj) \<Longrightarrow> size c < size obj"
proof -
  assume c: "c \<in> set (candidates obj)"
  have nested: "size (optProp (getProp obj ''data'') k) < size obj"
    if "optProp (getProp obj ''data'') k \<noteq> JUndefined" for k
  proof -
    from that have "getProp obj ''data'' \<noteq> JUndefined" by auto
    then have "size (getProp obj ''data'') < size obj" by (rule size_prop)
    moreover from that have "size (optProp (getProp obj ''data'') k) < size (getProp obj ''data'')"
      by (rule size_opt_prop)
    ultimately show ?thesis by simp
  qed
  from c have t: "truthy c" and
    "c = getProp obj ''url'' \<or> c = getProp obj ''path'' \<or> c = getProp obj ''name'' \<or>
     c = getProp obj ''value'' \<or> c = optProp (getProp obj ''data'') ''url'' \<or>
     c = optProp (getProp obj ''data'') ''path'' \<or> c = optProp (getProp obj ''data'') ''name''"
    unfolding candidates_def set_filter by auto
  moreover from t have "c \<noteq> JUndefined" by auto
  ultimately show ?thesis using size_prop nested by metis
qed

function extractUrlFromOutput :: "jsvalue \<Rightarrow> string" where
  "extractUrlFromOutput output =
     (if \<not> truthy output then []
      else (case output of
              JStr s \<Rightarrow> (if startsWith s ''data:image/'' then s else toAbsoluteGradioFileUrl s)
            | JArr items \<Rightarrow> first_url extractUrlFromOutput items
            | JObj kvs \<Rightarrow> first_url extractUrlFromOutput (candidates output)
            | _ \<Rightarrow> []))"
  by pat_completeness auto
termination
proof (relation "measure size")
  show "wf (measure size)" by simp
next
  fix v :: jsvalue and items x
  assume "v = JArr items" and "x \<in> set items"
  then show "(x, v) \<in> measure size"
    by (auto simp: less_Suc_eq_le size_list_estimation')
next
  fix v :: jsvalue and x
  assume "x \<in> set (candidates v)"
  then show "(x, v) \<in> measure size"
    by (simp add: size_candidates)
qed

declare extractUrlFromOutput.simps [simp del]

section \<open>Detection results and the department table\<close>

text \<open>
  The object a detection returns, as it is at run time: the TypeScript union of the four
  category names is erased, so \<open>category\<close> is a string, and a field that is
  \<open>undefined\<close> is \<open>None\<close>. Numbers are rationals: \<open>0.85\<close> is \<open>17/20\<close>.
\<close>

record detection_result =
  category :: "string option"
  department :: "string option"
  confidence :: "rat option"
  detectedLabels :: "string list option"
  processedImageUrl :: "string option"

definition DEPARTMENT_MAP :: "(string \<times> string) list" where
  "DEPARTMENT_MAP =
     [(''pothole'', ''Road Maintenance''),
      (''garbage'', ''Sanitation''),
      (''streetlight'', ''Public Works''),
      (''water'', ''Water Department''),
      (''drainage'', ''Public Works''),
      (''other'', ''General Services'')]"

text \<open>
  A value used as a property key or inside a template literal is converted to a string:
  \<open>undefined\<close> becomes the text \<open>undefined\<close>.
\<close>

definition to_key :: "string option \<Rightarrow> string" where
  "to_key c = (case c of None \<Rightarrow> ''undefined'' | Some s \<Rightarrow> s)"

text \<open>\<open>xs[i]\<close> reads \<open>undefined\<close> outside the array.\<close>

definition index :: "'a list \<Rightarrow> int \<Rightarrow> 'a option" where
  "index xs i = (if 0 \<le> i \<and> i < int (length xs) then Some (xs ! nat i) else None)"

record image_file =
  name :: string
  mime :: string
  bytes :: "nat list"

section \<open>Mock classifier\<close>

text \<open>
  \<open>Math.random\<close> is the only state the classifier reads. It is passed in as the sequence
  of its draws, \<open>random k\<close> being the draw of the \<open>k\<close>-th call made during one detection;
  the category step returns how many draws it has used. The artificial delay of 1500 ms
  is left out.
\<close>

definition categories :: "string list" where
  "categories = [''pothole'', ''garbage'', ''streetlight'', ''other'']"

definition mockAIDetection :: "image_file \<Rightarrow> (nat \<Rightarrow> rat) \<Rightarrow> detection_result" where
  "mockAIDetection imageFile random =
     (let filename = toLowerCase (name imageFile);
          (category, used) =
            (if includes_str filename ''pothole'' \<or> includes_str filename ''road''
               then (Some ''pothole'', 0::nat)
             else if includes_str filename ''garbage'' \<or> includes_str filename ''trash''
               then (Some ''garbage'', 0)
             else if includes_str filename ''light'' \<or> includes_str filename ''lamp''
               then (Some ''streetlight'', 0)
             else (index categories \<lfloor>random 0 * of_nat (length categories)\<rfloor>, 1))
      in \<lparr> category = category,
           department = map_of DEPARTMENT_MAP (to_key category),
           confidence = Some (3 / 4 + random used * (1 / 5)),
           detectedLabels = Some [''mock_'' @ to_key category @ ''_label''],
           processedImageUrl = None \<rparr>)"

section \<open>Variant A: call and parse\<close>

definition extractCategoryFromClassification :: "string \<Rightarrow> string" where
  "extractCategoryFromClassification classification =
     (let lowerText = toLowerCase classification in
      if includes_str lowerText ''pothole'' \<or> includes_str lowerText ''road'' \<or>
         includes_str lowerText ''road maintenance''
        then ''pothole''
      else if includes_str lowerText ''garbage'' \<or> includes_str lowerText ''waste'' \<or>
              includes_str lowerText ''sanitation'' \<or> includes_str lowerText ''trash''
        then ''garbage''
      else if includes_str lowerText ''light'' \<or> includes_str lowerText ''lamp'' \<or>
              includes_str lowerText ''public works''
        then ''streetlight''
      else ''other'')"

text \<open>
  The Gradio client is a library: connecting and calling \<open>/detect_image_1\<close> either
  rejects (\<open>None\<close>) or gives the pair the source destructures, the annotated image's
  descriptor and the classification text.
\<close>

record file_data =
  url :: string
  path :: string
  orig_name :: string

definition detectIssueWithAI_A ::
    "(image_file \<Rightarrow> (file_data \<times> string) option) \<Rightarrow> image_file \<Rightarrow> (nat \<Rightarrow> rat) \<Rightarrow>
     detection_result" where
  "detectIssueWithAI_A predict imageFile random =
     (case predict imageFile of
        None \<Rightarrow> mockAIDetection imageFile random
      | Some (detectionImage, classification) \<Rightarrow>
          (let category = extractCategoryFromClassification classification
           in \<lparr> category = Some category,
                department = map_of DEPARTMENT_MAP category,
                confidence = Some (17 / 20),
                detectedLabels = Some [classification],
                processedImageUrl = Some (url detectionImage) \<rparr>))"

section \<open>Variant B: upload, predict, result stream\<close>

subsection \<open>The remote service\<close>

text \<open>
  What a call of an asynchronous function can do: return a value (\<open>Inr\<close>), throw
  (\<open>Inl\<close>), or, where a loop is involved, never settle (\<open>None\<close> around the sum).
\<close>

datatype error =
    NetworkError
  | UploadFailed nat
  | SyntaxError
  | NoFilePath
  | GradioApiError nat
  | NoEventId
  | ResultFailed nat
  | NoResponseBody
  | TypeError
  | NoProcessedImageUrl

text \<open>
  The outcome of the \<open>n\<close>-th \<open>reader.read()\<close> on a response body: the promise rejects,
  the stream is done, or a chunk arrives (given as the text \<open>TextDecoder\<close> makes of it).
  A body is the sequence of these outcomes, so a body that never ends can be written.
\<close>

datatype read_result = ReadRejects | ReadDone | ReadChunk string

text \<open>
  A response, with the outcomes of reading it in each of the three ways the source does:
  \<open>json()\<close> and \<open>text()\<close> give \<open>None\<close> when they reject; \<open>body\<close> is \<open>None\<close> when the
  response has no body to read from.
\<close>

record 'a response =
  ok :: bool
  status :: nat
  content_type :: "string option"
  json_body :: "'a option"
  text_body :: "string option"
  body :: "(nat \<Rightarrow> read_result) option"

text \<open>
  The upload answer, as the source types it: \<open>UploadResponseArray\<close>, \<open>UploadResponseObj\<close>
  with its two optional fields, or the text of a body that is not announced as JSON.
  The answer of the predict call is \<open>PredictStartResponse\<close>, whose only field is the
  optional \<open>event_id\<close>.
\<close>

datatype upload_data =
    UploadArray "string list"
  | UploadObj "string list option" "string option"
  | UploadText string

text \<open>
  The service is a function from each request to the outcome of its \<open>fetch\<close>, \<open>None\<close>
  when \<open>fetch\<close> rejects. A request is what the source sends: the file and the
  \<open>Authorization\<close> header; the file path, its URL and the header; the event id (which
  makes the URL) and the header.
\<close>

record remote =
  upload_ep :: "image_file \<Rightarrow> string option \<Rightarrow> upload_data response option"
  predict_ep :: "string \<Rightarrow> string \<Rightarrow> string option \<Rightarrow> string option response option"
  result_ep :: "string \<Rightarrow> string option \<Rightarrow> unit response option"

definition authorization :: "string option \<Rightarrow> string option" where
  "authorization token =
     (case token of
        None \<Rightarrow> None
      | Some t \<Rightarrow> if t \<noteq> [] then Some (''Bearer '' @ t) else None)"

subsection \<open>Upload and predict\<close>

fun filePathOf :: "upload_data \<Rightarrow> string" where
  "filePathOf (UploadArray (x # xs)) = x"
| "filePathOf (UploadArray []) = []"
| "filePathOf (UploadObj (Some (f # fs)) file) = f"
| "filePathOf (UploadObj files (Some file)) = (if file \<noteq> [] then file else [])"
| "filePathOf (UploadObj files None) = []"
| "filePathOf (UploadText t) = []"

definition uploadImageToGradio ::
    "remote \<Rightarrow> image_file \<Rightarrow> string option \<Rightarrow> error + string option" where
  "uploadImageToGradio rem imageFile token =
     (case upload_ep rem imageFile (authorization token) of
        None \<Rightarrow> Inl NetworkError
      | Some uploadResponse \<Rightarrow>
          if \<not> ok uploadResponse then Inl (UploadFailed (status uploadResponse))
          else
            (let ct = (case content_type uploadResponse of None \<Rightarrow> [] | Some c \<Rightarrow> c) in
             case (if includes_str ct ''application/json''
                   then (case json_body uploadResponse of
                           None \<Rightarrow> Inl SyntaxError | Some d \<Rightarrow> Inr d)
                   else (case text_body uploadResponse of
                           None \<Rightarrow> Inl NetworkError | Some t \<Rightarrow> Inr (UploadText t))) of
               Inl e \<Rightarrow> Inl e
             | Inr uploadData \<Rightarrow>
                 (let filePath = filePathOf uploadData in
                  if filePath = [] then Inl NoFilePath
                  else
                    (case predict_ep rem filePath (toAbsoluteGradioFileUrl filePath)
                            (authorization token) of
                       None \<Rightarrow> Inl NetworkError
                     | Some predictResp \<Rightarrow>
                         if \<not> ok predictResp
                         then (case text_body predictResp of
                                 None \<Rightarrow> Inl NetworkError
                               | Some errorText \<Rightarrow> Inl (GradioApiError (status predictResp)))
                         else (case json_body predictResp of
                                 None \<Rightarrow> Inl SyntaxError
                               | Some predictData \<Rightarrow> Inr predictData)))))"

subsection \<open>Scanning the result stream\<close>

text \<open>
  The statements of the \<open>try\<close> block after \<open>JSON.parse\<close>. \<open>Inr (Some u)\<close> is the
  assignment of \<open>u\<close> to \<open>processedImageUrl\<close> (here \<open>found\<close>) followed by \<open>break\<close>; \<open>Inr None\<close> falls out
  of the block; reading \<open>output\<close> off \<open>null\<close> throws.
\<close>

definition frame_body :: "string \<Rightarrow> jsvalue \<Rightarrow> error + string option" where
  "frame_body found jsonData =
     (let u1 = (if found = [] \<and> isArray jsonData
                then extractUrlFromOutput jsonData else [])
      in if u1 \<noteq> [] then Inr (Some u1)
      else if jsonData = JNull \<or> jsonData = JUndefined then Inl TypeError
      else
        (let output = getProp jsonData ''output'';
             u2 = (if truthy output \<and> truthy (getProp output ''data'')
                   then extractUrlFromOutput (getProp output ''data'') else [])
         in if u2 \<noteq> [] then Inr (Some u2)
         else
           (let u3 = (if found = [] \<and> isArray (getProp jsonData ''data'')
                      then extractUrlFromOutput (getProp jsonData ''data'') else [])
            in if u3 \<noteq> [] then Inr (Some u3)
            else
              (let u4 = (if found = [] \<and> truthy output \<and>
                            truthy (getProp output ''value'')
                         then extractUrlFromOutput (getProp output ''value'') else [])
               in if u4 \<noteq> [] then Inr (Some u4) else Inr None))))"

text \<open>
  The whole \<open>try\<close>/\<open>catch\<close> on the text after \<open>data: \<close>. \<open>JSON.parse\<close> is a parameter,
  \<open>None\<close> where it throws; the \<open>catch\<close> ignores whatever was thrown.
\<close>

definition frame_url :: "(string \<Rightarrow> jsvalue option) \<Rightarrow> string \<Rightarrow> string \<Rightarrow> string option" where
  "frame_url parse found payload =
     (case (case parse payload of
              None \<Rightarrow> Inl SyntaxError
            | Some jsonData \<Rightarrow> frame_body found jsonData) of
        Inl e \<Rightarrow> None
      | Inr r \<Rightarrow> r)"

text \<open>The \<open>for\<close> loop over the lines of a chunk; its value is \<open>processedImageUrl\<close> after it.\<close>

fun scan_lines :: "(string \<Rightarrow> jsvalue option) \<Rightarrow> string \<Rightarrow> string list \<Rightarrow> string" where
  "scan_lines parse found [] = found"
| "scan_lines parse found (line # lines) =
     (if startsWith line ''data: ''
      then (case frame_url parse found (drop 6 line) of
              Some u \<Rightarrow> u
            | None \<Rightarrow> scan_lines parse found lines)
      else scan_lines parse found lines)"

text \<open>
  The \<open>while (true)\<close> loop, from the \<open>n\<close>-th read on. It has no bound of its own: on a
  body that neither ends nor yields a URL it never returns, which is \<open>None\<close>.
  \<open>fullData\<close> is only logged and is left out, as all logging is.
\<close>

partial_function (option) read_loop ::
    "(string \<Rightarrow> jsvalue option) \<Rightarrow> (nat \<Rightarrow> read_result) \<Rightarrow> nat \<Rightarrow> string \<Rightarrow> (error + string) option"
where
  "read_loop parse reader n found =
     (case reader n of
        ReadRejects \<Rightarrow> Some (Inl NetworkError)
      | ReadDone \<Rightarrow> Some (Inr found)
      | ReadChunk chunk \<Rightarrow>
          (let lines = split_lines chunk;
               found' = scan_lines parse found lines
           in if found' \<noteq> [] then Some (Inr found')
              else read_loop parse reader (Suc n) found'))"

definition getGradioResult ::
    "(string \<Rightarrow> jsvalue option) \<Rightarrow> remote \<Rightarrow> string \<Rightarrow> string option \<Rightarrow>
     (error + detection_result) option" where
  "getGradioResult parse rem eventId token =
     (case result_ep rem eventId (authorization token) of
        None \<Rightarrow> Some (Inl NetworkError)
      | Some response \<Rightarrow>
          if \<not> ok response then Some (Inl (ResultFailed (status response)))
          else
            (case body response of
               None \<Rightarrow> Some (Inl NoResponseBody)
             | Some reader \<Rightarrow>
                 (case read_loop parse reader 0 [] of
                    None \<Rightarrow> None
                  | Some (Inl e) \<Rightarrow> Some (Inl e)
                  | Some (Inr found) \<Rightarrow>
                      if found = [] then Some (Inl NoProcessedImageUrl)
                      else Some (Inr \<lparr> category = Some ''pothole'',
                                       department = map_of DEPARTMENT_MAP ''pothole'',
                                       confidence = Some (17 / 20),
                                       detectedLabels = Some [''pothole detected by YOLO''],
                                       processedImageUrl = Some found \<rparr>))))"

subsection \<open>The bridge\<close>

text \<open>The \<open>try\<close> block of \<open>detectIssueWithAI\<close>, and the function with its \<open>catch\<close>.\<close>

definition detect_try ::
    "(string \<Rightarrow> jsvalue option) \<Rightarrow> remote \<Rightarrow> image_file \<Rightarrow> string option \<Rightarrow>
     (error + detection_result) option" where
  "detect_try parse rem imageFile token =
     (case uploadImageToGradio rem imageFile token of
        Inl e \<Rightarrow> Some (Inl e)
      | Inr eventId \<Rightarrow>
          (case eventId of
             None \<Rightarrow> Some (Inl NoEventId)
           | Some eid \<Rightarrow>
               if eid = [] then Some (Inl NoEventId)
               else getGradioResult parse rem eid token))"

definition detectIssueWithAI ::
    "(string \<Rightarrow> jsvalue option) \<Rightarrow> remote \<Rightarrow> image_file \<Rightarrow> string option \<Rightarrow> (nat \<Rightarrow> rat) \<Rightarrow>
     (error + detection_result) option" where
  "detectIssueWithAI parse rem imageFile token random =
     (case detect_try parse rem imageFile token of
        None \<Rightarrow> None
      | Some (Inl e) \<Rightarrow> Some (Inr (mockAIDetection imageFile random))
      | Some (Inr result) \<Rightarrow> Some (Inr result))"

section \<open>Notions the properties are stated with\<close>

text \<open>
  The first successfully extracted URL of a sequence of extraction results: the first one
  that is not the empty string, or the empty string when there is none.
\<close>

definition first_success :: "string list \<Rightarrow> string" where
  "first_success us = (case filter (\<lambda>u. u \<noteq> []) us of [] \<Rightarrow> [] | u # rest \<Rightarrow> u)"

text \<open>Reading a path of field names off a value, \<open>undefined\<close> where the path leaves the value.\<close>

fun lookup_path :: "jsvalue \<Rightarrow> string list \<Rightarrow> jsvalue" where
  "lookup_path v [] = v"
| "lookup_path (JObj kvs) (k # ks) =
     (case map_of kvs k of None \<Rightarrow> JUndefined | Some w \<Rightarrow> lookup_path w ks)"
| "lookup_path v (k # ks) = JUndefined"

text \<open>
  The fields of an object in the order they are probed: \<open>probe_order\<close> is the order the
  source has, \<open>claimed_probe_order\<close> the one with a fourth nested field, \<open>data.value\<close>.
\<close>

definition probe_order :: "string list list" where
  "probe_order =
     [[''url''], [''path''], [''name''], [''value''],
      [''data'', ''url''], [''data'', ''path''], [''data'', ''name'']]"

definition claimed_probe_order :: "string list list" where
  "claimed_probe_order =
     [[''url''], [''path''], [''name''], [''value''],
      [''data'', ''url''], [''data'', ''path''], [''data'', ''name''], [''data'', ''value'']]"

text \<open>
  Probing the fields \<open>paths\<close> of a value in order: extract from each, and return the first
  successfully extracted URL.
\<close>

definition probe_fields :: "string list list \<Rightarrow> jsvalue \<Rightarrow> string" where
  "probe_fields paths v =
     first_success (map (\<lambda>p. extractUrlFromOutput (lookup_path v p)) paths)"

text \<open>
  Whether a URL can be extracted from a value: a string that is not empty, an array with
  an element a URL can be extracted from, an object with such a value at one of the
  probed fields. No order and no first match are involved.
\<close>

lemma lookup_path_1: "lookup_path (JObj kvs) [k] = getProp (JObj kvs) k"
  by (simp split: option.splits)

lemma lookup_path_2:
  "lookup_path (JObj kvs) [k, k'] = optProp (getProp (JObj kvs) k) k'"
proof (cases "map_of kvs k")
  case None
  then show ?thesis by simp
next
  case (Some w)
  then show ?thesis by (cases w) (simp_all split: option.splits)
qed

lemma size_lookup_path_le: "size (lookup_path v p) \<le> size v"
proof (induction v p rule: lookup_path.induct)
  case (2 kvs k ks)
  show ?case
  proof (cases "map_of kvs k")
    case None
    then show ?thesis by simp
  next
    case (Some w)
    with 2 have "size (lookup_path w ks) \<le> size w" by simp
    moreover from Some have "size w < size (JObj kvs)" by (auto dest: size_map_of)
    ultimately show ?thesis using Some by simp
  qed
qed simp_all

lemma size_lookup_path: "p \<noteq> [] \<Longrightarrow> size (lookup_path (JObj kvs) p) < size (JObj kvs)"
proof (cases p)
  case Nil
  assume "p \<noteq> []"
  with Nil show ?thesis by simp
next
  case (Cons k ks)
  show ?thesis
  proof (cases "map_of kvs k")
    case None
    with Cons show ?thesis by simp
  next
    case (Some w)
    have "size (lookup_path w ks) \<le> size w" by (rule size_lookup_path_le)
    moreover from Some have "size w < size (JObj kvs)" by (auto dest: size_map_of)
    ultimately show ?thesis using Some Cons by simp
  qed
qed

function extractable :: "jsvalue \<Rightarrow> bool" where
  "extractable (JStr s) = (s \<noteq> [])"
| "extractable (JArr items) = (\<exists>item\<in>set items. extractable item)"
| "extractable (JObj kvs) = (\<exists>p\<in>set probe_order. extractable (lookup_path (JObj kvs) p))"
| "extractable JUndefined = False"
| "extractable JNull = False"
| "extractable (JBool b) = False"
| "extractable (JNum n) = False"
  by pat_completeness auto
termination
proof (relation "measure size")
  show "wf (measure size)" by simp
next
  fix items :: "jsvalue list" and item
  assume "item \<in> set items"
  then show "(item, JArr items) \<in> measure size"
    by (auto simp: less_Suc_eq_le size_list_estimation')
next
  fix kvs :: "(string \<times> jsvalue) list" and p
  assume "p \<in> set probe_order"
  then have "p \<noteq> []" by (auto simp: probe_order_def)
  then have "size (lookup_path (JObj kvs) p) < size (JObj kvs)"
    by (rule size_lookup_path)
  then show "(lookup_path (JObj kvs) p, JObj kvs) \<in> measure size"
    by simp
qed

text \<open>
  A frame holds a URL when one can be extracted from the frame itself, if it is an array,
  from its \<open>output.data\<close>, from its \<open>data\<close>, if that is an array, or from its
  \<open>output.value\<close>. A line holds one when it is a \<open>data: \<close> line whose payload parses to
  such a frame, and a chunk when one of its lines does.
\<close>

definition frame_holds_url :: "jsvalue \<Rightarrow> bool" where
  "frame_holds_url v =
     ((isArray v \<and> extractable v) \<or>
      extractable (lookup_path v [''output'', ''data'']) \<or>
      (isArray (lookup_path v [''data'']) \<and> extractable (lookup_path v [''data''])) \<or>
      extractable (lookup_path v [''output'', ''value'']))"

definition line_holds_url :: "(string \<Rightarrow> jsvalue option) \<Rightarrow> string \<Rightarrow> bool" where
  "line_holds_url parse line =
     (startsWith line ''data: '' \<and>
      (case parse (drop 6 line) of None \<Rightarrow> False | Some v \<Rightarrow> frame_holds_url v))"

definition chunk_holds_url :: "(string \<Rightarrow> jsvalue option) \<Rightarrow> string \<Rightarrow> bool" where
  "chunk_holds_url parse chunk = (\<exists>line\<in>set (split_lines chunk). line_holds_url parse line)"




subsection \<open>The failures of the remote service\<close>







section \<open>Stubs of the remote service\<close>

text \<open>
  A server-sent-event frame is a line \<open>data: \<close> followed by the payload, and an empty
  line. \<open>second_frame\<close> is the payload of the two-frame scenario and \<open>second_json\<close> the
  value \<open>JSON.parse\<close> gives for it.
\<close>

definition sse_frame :: "string \<Rightarrow> string" where
  "sse_frame payload = ''data: '' @ payload @ [CHR 0x0A, CHR 0x0A]"

definition second_frame :: string where
  \<open>second_frame = ''{"output":{"data":[{"path":"/tmp/out.jpg"}]}}''\<close>

definition second_json :: jsvalue where
  "second_json =
     JObj [(''output'', JObj [(''data'', JArr [JObj [(''path'', JStr ''/tmp/out.jpg'')]])])]"

text \<open>
  \<open>first_frame\<close> is a frame of the kind the service sends while it works: it parses, and
  holds no URL.
\<close>

definition first_frame :: string where
  \<open>first_frame = ''{"msg":"heartbeat"}''\<close>

definition first_json :: jsvalue where
  "first_json = JObj [(''msg'', JStr ''heartbeat'')]"

text \<open>\<open>JSON.parse\<close> on the payloads the stubs send; it throws on every other text.\<close>

definition parse_stub :: "string \<Rightarrow> jsvalue option" where
  "parse_stub s =
     (if s = second_frame then Some second_json
      else if s = first_frame then Some first_json
      else if s = ''null'' then Some JNull
      else None)"

definition ok_json :: "'a \<Rightarrow> 'a response" where
  "ok_json d =
     \<lparr> ok = True, status = 200, content_type = Some ''application/json'',
       json_body = Some d, text_body = None, body = None \<rparr>"

definition ok_stream :: "(nat \<Rightarrow> read_result) \<Rightarrow> unit response" where
  "ok_stream reader =
     \<lparr> ok = True, status = 200, content_type = Some ''text/event-stream'',
       json_body = None, text_body = None, body = Some reader \<rparr>"

text \<open>A service that is unreachable: every \<open>fetch\<close> rejects.\<close>

definition rejecting_stub :: remote where
  "rejecting_stub =
     \<lparr> upload_ep = (\<lambda>f h. None), predict_ep = (\<lambda>p u h. None), result_ep = (\<lambda>e h. None) \<rparr>"

text \<open>A service that accepts the upload, starts the prediction and streams \<open>reader\<close>.\<close>

definition streaming_stub :: "(nat \<Rightarrow> read_result) \<Rightarrow> remote" where
  "streaming_stub reader =
     \<lparr> upload_ep = (\<lambda>f h. Some (ok_json (UploadArray [''/tmp/gradio/in.jpg'']))),
       predict_ep = (\<lambda>p u h. Some (ok_json (Some ''abc123''))),
       result_ep = (\<lambda>e h. Some (ok_stream reader)) \<rparr>"

definition two_frames :: "nat \<Rightarrow> read_result" where
  "two_frames n =
     (if n = 0 then ReadChunk (sse_frame first_frame)
      else if n = 1 then ReadChunk (sse_frame second_frame)
      else ReadDone)"

definition one_frame :: "nat \<Rightarrow> read_result" where
  "one_frame n = (if n = 0 then ReadChunk (sse_frame ''null'') else ReadDone)"




definition pothole_test_jpg :: image_file where
  "pothole_test_jpg = \<lparr> name = ''pothole_test.jpg'', mime = ''image/jpeg'', bytes = [] \<rparr>"

definition photo_jpg :: image_file where
  "photo_jpg = \<lparr> name = ''IMG_0001.JPG'', mime = ''image/jpeg'', bytes = [] \<rparr>"

text \<open>A sequence of \<open>Math.random\<close> draws that are all one half, and one of zeros.\<close>

definition draws_half :: "nat \<Rightarrow> rat" where
  "draws_half k = 1 / 2"

definition draws_zero :: "nat \<Rightarrow> rat" where
  "draws_zero k = 0"

section \<open>Strings: facts\<close>

lemma startsWith_append: "startsWith (p @ s) p"
  by (simp add: startsWith_def)

lemma includes_str_infix: "includes_str (pre @ sub @ post) sub"
proof (induction pre)
  case Nil
  have "startsWith (sub @ post) sub" by (rule startsWith_append)
  then show ?case by (cases "sub @ post") auto
next
  case (Cons a pre)
  then show ?case by simp
qed

lemma toLowerChar_ascii:
  "((of_char (toLowerChar c) :: nat) < 128) = ((of_char c :: nat) < 128)"
  by (simp add: toLowerChar_def Let_def)

lemma ascii_not_special:
  assumes "(of_char c :: nat) < 128"
  shows "\<not> startsWith (c # cs) KELVIN_SIGN" and "\<not> startsWith (c # cs) CAPITAL_I_WITH_DOT"
  using assms by (auto simp: startsWith_def KELVIN_SIGN_def CAPITAL_I_WITH_DOT_def)

text \<open>On ASCII text \<open>toLowerCase\<close> works letter by letter.\<close>

lemma toLowerCase_ascii:
  "\<forall>c\<in>set xs. (of_char c :: nat) < 128 \<Longrightarrow>
   toLowerCase (xs @ ys) = map toLowerChar xs @ toLowerCase ys"
  by (induction xs) (simp_all add: ascii_not_special)

text \<open>What precedes an ASCII character does not change how the text from it on is lowered.\<close>

lemma toLowerCase_suffix:
  assumes "s = [] \<or> (of_char (hd s) :: nat) < 128"
  shows "\<exists>X. toLowerCase (pre @ s) = X @ toLowerCase s"
proof (induction pre rule: length_induct)
  case (1 pre)
  show ?case
  proof (cases pre)
    case Nil
    then show ?thesis by simp
  next
    case (Cons c cs)
    consider (k) "startsWith (c # cs @ s) KELVIN_SIGN"
      | (i) "\<not> startsWith (c # cs @ s) KELVIN_SIGN" "startsWith (c # cs @ s) CAPITAL_I_WITH_DOT"
      | (plain) "\<not> startsWith (c # cs @ s) KELVIN_SIGN"
          "\<not> startsWith (c # cs @ s) CAPITAL_I_WITH_DOT"
      by blast
    then show ?thesis
    proof cases
      case k
      then have "2 \<le> length cs"
        using assms
        by (cases cs; cases s; cases "tl cs")
           (auto simp: startsWith_def KELVIN_SIGN_def)
      then have "drop 2 (cs @ s) = drop 2 cs @ s" by simp
      moreover have "\<exists>X. toLowerCase (drop 2 cs @ s) = X @ toLowerCase s"
        using 1 Cons by simp
      ultimately show ?thesis using k Cons by auto
    next
      case i
      then have "1 \<le> length cs"
        using assms by (cases cs; cases s) (auto simp: startsWith_def CAPITAL_I_WITH_DOT_def)
      then have "drop 1 (cs @ s) = drop 1 cs @ s" by simp
      moreover have "\<exists>X. toLowerCase (drop 1 cs @ s) = X @ toLowerCase s"
        using 1 Cons by simp
      ultimately show ?thesis using i Cons by auto
    next
      case plain
      moreover have "\<exists>X. toLowerCase (cs @ s) = X @ toLowerCase s"
        using 1 Cons by simp
      ultimately show ?thesis using Cons by auto
    qed
  qed
qed

text \<open>A text whose lower-case form is ASCII without \<open>k\<close> and \<open>i\<close> is ASCII itself.\<close>

lemma toLowerCase_plain:
  "\<forall>c\<in>set (toLowerCase w). (of_char c :: nat) < 128 \<and> c \<noteq> CHR ''k'' \<and> c \<noteq> CHR ''i'' \<Longrightarrow>
   (\<forall>c\<in>set w. (of_char c :: nat) < 128) \<and> toLowerCase w = map toLowerChar w"
proof (induction w rule: toLowerCase.induct)
  case 1
  show ?case by simp
next
  case (2 c cs)
  from "2.prems" have k: "\<not> startsWith (c # cs) KELVIN_SIGN"
    by (auto split: if_splits)
  with "2.prems" have i: "\<not> startsWith (c # cs) CAPITAL_I_WITH_DOT"
    by (auto split: if_splits)
  from k i "2.prems" have c: "(of_char (toLowerChar c) :: nat) < 128"
    and rest: "\<forall>c\<in>set (toLowerCase cs). (of_char c :: nat) < 128 \<and> c \<noteq> CHR ''k'' \<and> c \<noteq> CHR ''i''"
    by simp_all
  from c have "(of_char c :: nat) < 128" by (simp add: toLowerChar_ascii)
  with "2.IH"(3) [OF k i rest] k i show ?case by simp
qed

lemma pothole_in_lower:
  assumes "classification = pre @ w @ post" and "toLowerCase w = ''pothole''"
  shows "includes_str (toLowerCase classification) ''pothole''"
proof -
  have "\<forall>c\<in>set (toLowerCase w). (of_char c :: nat) < 128 \<and> c \<noteq> CHR ''k'' \<and> c \<noteq> CHR ''i''"
    unfolding assms(2) by simp
  then have ascii: "\<forall>c\<in>set w. (of_char c :: nat) < 128"
    and plain: "toLowerCase w = map toLowerChar w"
    using toLowerCase_plain by blast+
  from assms(2) have "w \<noteq> []" by auto
  with ascii have "w @ post = [] \<or> (of_char (hd (w @ post)) :: nat) < 128" by simp
  then obtain X where "toLowerCase (pre @ w @ post) = X @ toLowerCase (w @ post)"
    using toLowerCase_suffix by blast
  also have "toLowerCase (w @ post) = ''pothole'' @ toLowerCase post"
    using toLowerCase_ascii [OF ascii] plain assms(2) by simp
  finally show ?thesis
    using assms(1) includes_str_infix [of X "''pothole''" "toLowerCase post"] by simp
qed

lemma split_lines_nl:
  "CHR 0x0A \<notin> set s \<Longrightarrow> split_lines (s @ CHR 0x0A # rest) = s # split_lines rest"
  by (induction s) auto

lemma split_lines_sse_frame:
  assumes "CHR 0x0A \<notin> set payload"
  shows "split_lines (sse_frame payload @ rest) = (''data: '' @ payload) # [] # split_lines rest"
proof -
  have "CHR 0x0A \<notin> set (''data: '' @ payload)" using assms by simp
  then have "split_lines ((''data: '' @ payload) @ CHR 0x0A # (CHR 0x0A # rest)) =
             (''data: '' @ payload) # split_lines (CHR 0x0A # rest)"
    by (rule split_lines_nl)
  then show ?thesis by (simp add: sse_frame_def)
qed

section \<open>URL normalization: properties\<close>

text \<open>
  C6. A path \<open>/tmp/<x>\<close> is rewritten to \<open><base>/file=/tmp/<x>\<close> exactly, whatever the
  suffix \<open><x>\<close> is.
\<close>

theorem tmp_path_rewritten:
  "toAbsoluteGradioFileUrl (''/tmp/'' @ x) = BASE @ ''/file=/tmp/'' @ x"
  by (simp add: toAbsoluteGradioFileUrl_def startsWith_def)

text \<open>
  C4, as amended. A non-empty path that begins with none of \<open>http\<close>, \<open>/file=\<close>,
  \<open>/gradio_api/file=\<close>, \<open>/gradio_api/file/\<close>, \<open>/tmp/\<close>, \<open>tmp/\<close>, \<open>file=\<close> and \<open>file/\<close>
  is treated as a root-relative \<open>/file=\<close> path on the base origin: the result is
  \<open><base>/file=<path>\<close>, with a slash put in front of a path that has none.
\<close>

theorem default_prefix:
  assumes "rel \<noteq> []"
    and "\<not> startsWith rel ''http''"
    and "\<not> startsWith rel ''/file=''"
    and "\<not> startsWith rel ''/gradio_api/file=''"
    and "\<not> startsWith rel ''/gradio_api/file/''"
    and "\<not> startsWith rel ''/tmp/''"
    and "\<not> startsWith rel ''tmp/''"
    and "\<not> startsWith rel ''file=''"
    and "\<not> startsWith rel ''file/''"
  shows "toAbsoluteGradioFileUrl rel =
           BASE @ ''/file='' @ (if startsWith rel ''/'' then [] else ''/'') @ rel"
  using assms by (simp add: toAbsoluteGradioFileUrl_def)

text \<open>The default on a path without a leading slash.\<close>

theorem default_prefix_witness:
  "toAbsoluteGradioFileUrl ''outputs/annotated.png'' = BASE @ ''/file=/outputs/annotated.png''"
  using default_prefix [of "''outputs/annotated.png''"] by (simp add: startsWith_def)

text \<open>
  C4 as stated fails: \<open>file=abc\<close> is not empty and begins with none of the six prefixes
  the claim lists, and it is not rewritten to \<open><base>/file=/file=abc\<close>. The source has
  a branch of its own for \<open>file=\<close> (and one for \<open>file/\<close>).
\<close>

theorem file_prefix_not_default:
  "''file=abc'' \<noteq> [] \<and>
   \<not> startsWith ''file=abc'' ''http'' \<and>
   \<not> startsWith ''file=abc'' ''/file='' \<and>
   \<not> startsWith ''file=abc'' ''/gradio_api/file='' \<and>
   \<not> startsWith ''file=abc'' ''/gradio_api/file/'' \<and>
   \<not> startsWith ''file=abc'' ''/tmp/'' \<and>
   \<not> startsWith ''file=abc'' ''tmp/'' \<and>
   toAbsoluteGradioFileUrl ''file=abc'' \<noteq>
     BASE @ ''/file='' @ (if startsWith ''file=abc'' ''/'' then [] else ''/'') @ ''file=abc''"
  by (simp add: toAbsoluteGradioFileUrl_def startsWith_def BASE_def)

section \<open>URL extraction: properties\<close>

lemma extract_JStr:
  "extractUrlFromOutput (JStr s) =
     (if s = [] then [] else if startsWith s ''data:image/'' then s else toAbsoluteGradioFileUrl s)"
  by (simp add: extractUrlFromOutput.simps)

lemma extract_JArr: "extractUrlFromOutput (JArr items) = first_url extractUrlFromOutput items"
  by (simp add: extractUrlFromOutput.simps)

lemma extract_JObj:
  "extractUrlFromOutput (JObj kvs) = first_url extractUrlFromOutput (candidates (JObj kvs))"
  by (simp add: extractUrlFromOutput.simps)

lemma extract_other:
  "extractUrlFromOutput JUndefined = []" "extractUrlFromOutput JNull = []"
  "extractUrlFromOutput (JBool b) = []" "extractUrlFromOutput (JNum n) = []"
  by (simp_all add: extractUrlFromOutput.simps)

lemma extract_falsy: "\<not> truthy v \<Longrightarrow> extractUrlFromOutput v = []"
  by (simp add: extractUrlFromOutput.simps)

lemma first_url_first_success: "first_url f xs = first_success (map f xs)"
  by (induction xs) (auto simp: first_success_def Let_def)

lemma first_success_filter:
  "(\<And>x. x \<in> set xs \<Longrightarrow> \<not> P x \<Longrightarrow> f x = []) \<Longrightarrow>
   first_success (map f (filter P xs)) = first_success (map f xs)"
  by (induction xs) (auto simp: first_success_def)

lemma toAbsolute_nonempty: "rel \<noteq> [] \<Longrightarrow> toAbsoluteGradioFileUrl rel \<noteq> []"
  by (simp add: toAbsoluteGradioFileUrl_def BASE_def Let_def)

lemma first_success_nonempty: "(first_success us \<noteq> []) = (\<exists>u\<in>set us. u \<noteq> [])"
  by (induction us) (auto simp: first_success_def)

lemma extract_array:
  "extractUrlFromOutput (JArr items) = first_success (map extractUrlFromOutput items)"
  by (simp add: extract_JArr first_url_first_success)

lemma extract_object:
  "extractUrlFromOutput (JObj kvs) = probe_fields probe_order (JObj kvs)"
proof -
  have "extractUrlFromOutput (JObj kvs) =
          first_success (map extractUrlFromOutput (candidates (JObj kvs)))"
    by (simp add: extract_JObj first_url_first_success)
  also have "\<dots> = first_success (map extractUrlFromOutput
       [getProp (JObj kvs) ''url'', getProp (JObj kvs) ''path'', getProp (JObj kvs) ''name'',
        getProp (JObj kvs) ''value'', optProp (getProp (JObj kvs) ''data'') ''url'',
        optProp (getProp (JObj kvs) ''data'') ''path'',
        optProp (getProp (JObj kvs) ''data'') ''name''])"
    unfolding candidates_def by (rule first_success_filter) (rule extract_falsy)
  also have "\<dots> = probe_fields probe_order (JObj kvs)"
    unfolding probe_fields_def probe_order_def list.map lookup_path_1 lookup_path_2 ..
  finally show ?thesis .
qed

text \<open>A URL is extracted from a value exactly when the value is extractable.\<close>

lemma extract_iff_extractable: "(extractUrlFromOutput v \<noteq> []) = extractable v"
proof (induction v rule: extractable.induct)
  case (1 s)
  show ?case by (simp add: extract_JStr toAbsolute_nonempty)
next
  case (2 items)
  then show ?case by (simp add: extract_array first_success_nonempty)
next
  case (3 kvs)
  then show ?case
    by (simp add: extract_object probe_fields_def first_success_nonempty)
qed (simp_all add: extract_other)

lemma extractable_truthy: "extractable v \<Longrightarrow> truthy v"
  by (cases v) auto

lemma lookup_path_any_1: "lookup_path v [k] = getProp v k"
  by (cases v) (simp_all split: option.splits)

lemma lookup_path_any_2: "lookup_path v [k, k'] = getProp (getProp v k) k'"
proof (cases v)
  case (JObj kvs)
  show ?thesis
  proof (cases "map_of kvs k")
    case None
    with JObj show ?thesis by simp
  next
    case (Some w)
    with JObj show ?thesis by (cases w) (simp_all split: option.splits)
  qed
qed simp_all

lemma getProp_extractable_truthy: "extractable (getProp v k) \<Longrightarrow> truthy v"
  by (cases v) auto

text \<open>
  C7. A string that begins with \<open>data:image/\<close> is returned by the extraction routine as
  it is: no prefix is rewritten.
\<close>

theorem data_image_unchanged:
  "startsWith s ''data:image/'' \<Longrightarrow> extractUrlFromOutput (JStr s) = s"
  by (auto simp: extract_JStr startsWith_def)

theorem data_image_unchanged_witness:
  "startsWith ''data:image/png;base64,iVBORw0KGgo='' ''data:image/'' \<and>
   extractUrlFromOutput (JStr ''data:image/png;base64,iVBORw0KGgo='') =
     ''data:image/png;base64,iVBORw0KGgo=''"
proof -
  have h: "startsWith ''data:image/png;base64,iVBORw0KGgo='' ''data:image/''"
    by (simp add: startsWith_def)
  show ?thesis using h data_image_unchanged [OF h] by simp
qed

text \<open>
  C3, as amended. On an array the routine returns the first successfully extracted URL of
  its elements, each extracted recursively. On an object it returns the first
  successfully extracted URL of the fields \<open>url\<close>, \<open>path\<close>, \<open>name\<close>, \<open>value\<close>,
  \<open>data.url\<close>, \<open>data.path\<close>, \<open>data.name\<close>, probed in this order and each extracted
  recursively.
\<close>

theorem extract_probe_order:
  "extractUrlFromOutput (JArr items) = first_success (map extractUrlFromOutput items) \<and>
   extractUrlFromOutput (JObj kvs) = probe_fields probe_order (JObj kvs)"
  by (simp add: extract_array extract_object)

text \<open>
  C3 as stated fails: \<open>data.value\<close> is not probed. A URL is extracted from the string
  \<open>/tmp/x.png\<close>, yet nothing is extracted from the object that holds it under
  \<open>data.value\<close>, where probing the claimed fields would find it.
\<close>

theorem data_value_not_probed:
  "extractUrlFromOutput (JStr ''/tmp/x.png'') \<noteq> [] \<and>
   extractUrlFromOutput (JObj [(''data'', JObj [(''value'', JStr ''/tmp/x.png'')])]) = [] \<and>
   extractUrlFromOutput (JObj [(''data'', JObj [(''value'', JStr ''/tmp/x.png'')])]) \<noteq>
     probe_fields claimed_probe_order (JObj [(''data'', JObj [(''value'', JStr ''/tmp/x.png'')])])"
  by (simp add: extract_JStr extract_JObj extract_other candidates_def claimed_probe_order_def
      probe_fields_def first_success_def toAbsoluteGradioFileUrl_def startsWith_def BASE_def)

section \<open>Variant A: properties\<close>

text \<open>
  C5. A classification text that contains \<open>pothole\<close> in any mix of upper and lower case
  (a piece \<open>w\<close> of the text whose lower-case form is \<open>pothole\<close>) gets the category
  \<open>pothole\<close> from the category extraction, whatever else the text contains, and so does
  the result of a Variant A detection whose remote call returned this text.
\<close>

theorem pothole_checked_first:
  assumes "classification = pre @ w @ post" and "toLowerCase w = ''pothole''"
  shows "extractCategoryFromClassification classification = ''pothole'' \<and>
         (predict imageFile = Some (detectionImage, classification) \<longrightarrow>
            category (detectIssueWithAI_A predict imageFile random) = Some ''pothole'')"
proof -
  have "includes_str (toLowerCase classification) ''pothole''"
    using assms by (rule pothole_in_lower)
  then have "extractCategoryFromClassification classification = ''pothole''"
    by (simp add: extractCategoryFromClassification_def)
  then show ?thesis by (simp add: detectIssueWithAI_A_def Let_def)
qed

text \<open>A text that names garbage and sanitation as well, with the pothole in mixed case.\<close>

theorem pothole_checked_first_witness:
  "extractCategoryFromClassification ''Garbage and a PotHole: Sanitation'' = ''pothole'' \<and>
   category
     (detectIssueWithAI_A
        (\<lambda>f. Some (\<lparr> url = ''https://x/out.png'', path = ''/tmp/out.png'', orig_name = ''out.png'' \<rparr>,
                    ''Garbage and a PotHole: Sanitation''))
        photo_jpg (\<lambda>k. 0)) = Some ''pothole''"
proof -
  have h1: "''Garbage and a PotHole: Sanitation'' = ''Garbage and a '' @ ''PotHole'' @ '': Sanitation''"
    by simp
  have h2: "toLowerCase ''PotHole'' = ''pothole''"
    by code_simp
  show ?thesis
    using pothole_checked_first
      [OF h1 h2,
       of "\<lambda>f. Some (\<lparr> url = ''https://x/out.png'', path = ''/tmp/out.png'', orig_name = ''out.png'' \<rparr>,
                     ''Garbage and a PotHole: Sanitation'')"
          photo_jpg
          "\<lparr> url = ''https://x/out.png'', path = ''/tmp/out.png'', orig_name = ''out.png'' \<rparr>"
          "\<lambda>k. 0"]
    by simp
qed

section \<open>The result stream: properties\<close>

text \<open>The scan of a frame, of a line and of a chunk finds a URL exactly when there is one.\<close>

lemma frame_body_holds:
  "(\<exists>u. frame_body [] v = Inr (Some u)) = frame_holds_url v"
proof (cases "v = JNull \<or> v = JUndefined")
  case True
  then show ?thesis
    by (auto simp: frame_body_def frame_holds_url_def)
next
  case False
  define out where "out = getProp v ''output''"
  define u1 where "u1 = (if isArray v then extractUrlFromOutput v else [])"
  define u2 where "u2 = (if truthy out \<and> truthy (getProp out ''data'')
                         then extractUrlFromOutput (getProp out ''data'') else [])"
  define u3 where "u3 = (if isArray (getProp v ''data'')
                         then extractUrlFromOutput (getProp v ''data'') else [])"
  define u4 where "u4 = (if truthy out \<and> truthy (getProp out ''value'')
                         then extractUrlFromOutput (getProp out ''value'') else [])"
  have fb: "frame_body [] v =
              (if u1 \<noteq> [] then Inr (Some u1)
               else if u2 \<noteq> [] then Inr (Some u2)
               else if u3 \<noteq> [] then Inr (Some u3)
               else if u4 \<noteq> [] then Inr (Some u4)
               else Inr None)"
    using False by (simp add: frame_body_def Let_def out_def u1_def u2_def u3_def u4_def)
  have e1: "(u1 \<noteq> []) = (isArray v \<and> extractable v)"
    by (simp add: u1_def extract_iff_extractable)
  have e2: "(u2 \<noteq> []) = extractable (getProp out ''data'')"
    using extractable_truthy [of "getProp out ''data''"]
      getProp_extractable_truthy [of out "''data''"]
    by (auto simp: u2_def extract_iff_extractable)
  have e3: "(u3 \<noteq> []) = (isArray (getProp v ''data'') \<and> extractable (getProp v ''data''))"
    by (simp add: u3_def extract_iff_extractable)
  have e4: "(u4 \<noteq> []) = extractable (getProp out ''value'')"
    using extractable_truthy [of "getProp out ''value''"]
      getProp_extractable_truthy [of out "''value''"]
    by (auto simp: u4_def extract_iff_extractable)
  have "(\<exists>u. frame_body [] v = Inr (Some u)) =
          (u1 \<noteq> [] \<or> u2 \<noteq> [] \<or> u3 \<noteq> [] \<or> u4 \<noteq> [])"
    by (simp add: fb)
  also have "\<dots> = frame_holds_url v"
    unfolding e1 e2 e3 e4 frame_holds_url_def lookup_path_any_1 lookup_path_any_2 out_def ..
  finally show ?thesis .
qed

lemma frame_body_nonempty: "frame_body found v = Inr (Some u) \<Longrightarrow> u \<noteq> []"
  by (auto simp: frame_body_def Let_def split: if_splits)

lemma frame_url_holds:
  "(\<exists>u. frame_url parse [] payload = Some u) =
     (case parse payload of None \<Rightarrow> False | Some v \<Rightarrow> frame_holds_url v)"
proof (cases "parse payload")
  case None
  then show ?thesis by (simp add: frame_url_def)
next
  case (Some v)
  have "(\<exists>u. frame_url parse [] payload = Some u) = (\<exists>u. frame_body [] v = Inr (Some u))"
    using Some by (cases "frame_body [] v") (auto simp: frame_url_def)
  with Some show ?thesis by (simp add: frame_body_holds)
qed

lemma frame_url_nonempty: "frame_url parse found payload = Some u \<Longrightarrow> u \<noteq> []"
  by (auto simp: frame_url_def split: option.splits sum.splits dest: frame_body_nonempty)

lemma scan_lines_holds:
  "(scan_lines parse [] lines \<noteq> []) = (\<exists>line\<in>set lines. line_holds_url parse line)"
proof (induction lines)
  case Nil
  show ?case by simp
next
  case (Cons line lines)
  show ?case
  proof (cases "startsWith line ''data: ''")
    case False
    with Cons show ?thesis by (simp add: line_holds_url_def)
  next
    case True
    show ?thesis
    proof (cases "frame_url parse [] (drop 6 line)")
      case None
      then have "\<not> line_holds_url parse line"
        using frame_url_holds [of parse "drop 6 line"] by (simp add: line_holds_url_def)
      with None True Cons show ?thesis by simp
    next
      case (Some u)
      then have "line_holds_url parse line"
        using frame_url_holds [of parse "drop 6 line"] True by (auto simp: line_holds_url_def)
      moreover from Some have "u \<noteq> []" by (rule frame_url_nonempty)
      ultimately show ?thesis using Some True by simp
    qed
  qed
qed

lemma scan_chunk_holds:
  "(scan_lines parse [] (split_lines chunk) \<noteq> []) = chunk_holds_url parse chunk"
  by (simp add: scan_lines_holds chunk_holds_url_def)

text \<open>One turn of the loop.\<close>

lemma read_loop_done: "reader i = ReadDone \<Longrightarrow> read_loop parse reader i found = Some (Inr found)"
  by (subst read_loop.simps) simp

lemma read_loop_rejects:
  "reader i = ReadRejects \<Longrightarrow> read_loop parse reader i found = Some (Inl NetworkError)"
  by (subst read_loop.simps) simp

lemma read_loop_found:
  "reader i = ReadChunk chunk \<Longrightarrow> scan_lines parse [] (split_lines chunk) = u \<Longrightarrow> u \<noteq> [] \<Longrightarrow>
   read_loop parse reader i [] = Some (Inr u)"
  by (subst read_loop.simps) (simp add: Let_def)

lemma read_loop_next:
  "reader i = ReadChunk chunk \<Longrightarrow> scan_lines parse [] (split_lines chunk) = [] \<Longrightarrow>
   read_loop parse reader i [] = read_loop parse reader (Suc i) []"
  by (subst read_loop.simps) (simp add: Let_def)







lemma getGradioResult_fields:
  assumes "getGradioResult parse rem eid token = Some (Inr result)"
  shows "category result = Some ''pothole'' \<and>
         department result = Some ''Road Maintenance'' \<and>
         confidence result = Some (17 / 20) \<and>
         detectedLabels result = Some [''pothole detected by YOLO''] \<and>
         (\<exists>u. u \<noteq> [] \<and> processedImageUrl result = Some u)"
  using assms
  by (auto simp: getGradioResult_def DEPARTMENT_MAP_def
      split: option.splits if_splits sum.splits)


lemma extract_second_json:
  "extractUrlFromOutput (JArr [JObj [(''path'', JStr ''/tmp/out.jpg'')]]) = BASE @ ''/file=/tmp/out.jpg''"
  by (simp add: extract_JArr extract_JObj extract_JStr candidates_def
      toAbsoluteGradioFileUrl_def startsWith_def BASE_def)

lemma frame_body_second_json: "frame_body [] second_json = Inr (Some (BASE @ ''/file=/tmp/out.jpg''))"
  by (simp add: frame_body_def second_json_def extract_second_json BASE_def)

lemma second_frame_no_nl: "CHR 0x0A \<notin> set second_frame"
  by (simp add: second_frame_def)


section \<open>Mock classifier: properties\<close>



text \<open>The classifier reads at most the first two draws.\<close>

lemma mock_draws:
  assumes "random 0 = random' 0" and "random 1 = random' 1"
  shows "mockAIDetection imageFile random = mockAIDetection imageFile random'"
  using assms by (simp add: mockAIDetection_def Let_def)

section \<open>The stubs, evaluated\<close>

lemma first_json_no_url: "\<not> frame_holds_url first_json"
  by (simp add: frame_holds_url_def first_json_def)

lemma parse_stub_first: "parse_stub first_frame = Some first_json"
  by (simp add: parse_stub_def first_frame_def second_frame_def)


lemma first_frame_no_nl: "CHR 0x0A \<notin> set first_frame"
  by (simp add: first_frame_def)

lemma null_chunk_no_url: "\<not> chunk_holds_url parse_stub (sse_frame ''null'')"
  by (simp add: chunk_holds_url_def line_holds_url_def sse_frame_def startsWith_def
      parse_stub_def first_frame_def second_frame_def frame_holds_url_def)

lemma scan_null_frame: "scan_lines parse_stub [] (split_lines (sse_frame ''null'')) = []"
  using null_chunk_no_url scan_chunk_holds [of parse_stub "sse_frame ''null''"] by simp

lemma scan_first_frame: "scan_lines parse_stub [] (split_lines (sse_frame first_frame)) = []"
proof -
  have "\<not> (\<exists>u. frame_url parse_stub [] first_frame = Some u)"
    by (simp add: frame_url_holds parse_stub_first first_json_no_url)
  then have "frame_url parse_stub [] first_frame = None" by simp
  then show ?thesis
    using split_lines_sse_frame [OF first_frame_no_nl, of "[]"] by (simp add: startsWith_def)
qed

lemma scan_second_frame:
  "scan_lines parse_stub [] (split_lines (sse_frame second_frame)) = BASE @ ''/file=/tmp/out.jpg''"
proof -
  have "frame_url parse_stub [] second_frame = Some (BASE @ ''/file=/tmp/out.jpg'')"
    by (simp add: frame_url_def parse_stub_def frame_body_second_json)
  then show ?thesis
    using split_lines_sse_frame [OF second_frame_no_nl, of "[]"] by (simp add: startsWith_def)
qed




lemma loop_one_frame: "read_loop parse_stub one_frame 0 [] = Some (Inr [])"
proof -
  have "read_loop parse_stub one_frame 0 [] = read_loop parse_stub one_frame (Suc 0) []"
    by (rule read_loop_next [OF _ scan_null_frame]) (simp add: one_frame_def)
  also have "\<dots> = Some (Inr [])"
    by (rule read_loop_done) (simp add: one_frame_def)
  finally show ?thesis .
qed

lemma loop_two_frames:
  "read_loop parse_stub two_frames 0 [] = Some (Inr (BASE @ ''/file=/tmp/out.jpg''))"
proof -
  have "read_loop parse_stub two_frames 0 [] = read_loop parse_stub two_frames (Suc 0) []"
    by (rule read_loop_next [OF _ scan_first_frame]) (simp add: two_frames_def)
  also have "\<dots> = Some (Inr (BASE @ ''/file=/tmp/out.jpg''))"
    by (rule read_loop_found [OF _ scan_second_frame]) (simp_all add: two_frames_def)
  finally show ?thesis .
qed





lemma upload_streaming_stub:
  "uploadImageToGradio (streaming_stub reader) imageFile token = Inr (Some ''abc123'')"
  by (simp add: uploadImageToGradio_def streaming_stub_def ok_json_def startsWith_def)

lemma result_streaming_stub:
  "getGradioResult parse (streaming_stub reader) eid token =
     (case read_loop parse reader 0 [] of
        None \<Rightarrow> None
      | Some (Inl e) \<Rightarrow> Some (Inl e)
      | Some (Inr found) \<Rightarrow>
          if found = [] then Some (Inl NoProcessedImageUrl)
          else Some (Inr \<lparr> category = Some ''pothole'',
                           department = Some ''Road Maintenance'',
                           confidence = Some (17 / 20),
                           detectedLabels = Some [''pothole detected by YOLO''],
                           processedImageUrl = Some found \<rparr>))"
  by (simp add: getGradioResult_def streaming_stub_def ok_stream_def DEPARTMENT_MAP_def
      split: option.splits sum.splits)

lemma try_streaming_stub:
  "detect_try parse (streaming_stub reader) imageFile token =
     getGradioResult parse (streaming_stub reader) ''abc123'' token"
  by (simp add: detect_try_def upload_streaming_stub)

lemma try_one_frame:
  "detect_try parse_stub (streaming_stub one_frame) imageFile token = Some (Inl NoProcessedImageUrl)"
  by (simp add: try_streaming_stub result_streaming_stub loop_one_frame)

lemma try_two_frames:
  "detect_try parse_stub (streaming_stub two_frames) imageFile token =
     Some (Inr \<lparr> category = Some ''pothole'',
                 department = Some ''Road Maintenance'',
                 confidence = Some (17 / 20),
                 detectedLabels = Some [''pothole detected by YOLO''],
                 processedImageUrl = Some (BASE @ ''/file=/tmp/out.jpg'') \<rparr>)"
  by (simp add: try_streaming_stub result_streaming_stub loop_two_frames)





section \<open>The bridge: properties\<close>

lemma detect_try_fields:
  assumes "detect_try parse rem imageFile token = Some (Inr result)"
  shows "category result = Some ''pothole'' \<and>
         department result = Some ''Road Maintenance'' \<and>
         confidence result = Some (17 / 20) \<and>
         detectedLabels result = Some [''pothole detected by YOLO''] \<and>
         (\<exists>u. u \<noteq> [] \<and> processedImageUrl result = Some u)"
proof -
  from assms obtain eid where "getGradioResult parse rem eid token = Some (Inr result)"
    by (auto simp: detect_try_def split: sum.splits option.splits if_splits)
  then show ?thesis by (rule getGradioResult_fields)
qed


text \<open>
  C2. When the \<open>try\<close> block of the bridge succeeds (the upload succeeds, an event id
  is obtained and a frame of the stream yields a URL), the detection returns its result,
  and that result has category \<open>pothole\<close>, department \<open>Road Maintenance\<close>, confidence
  0.85 and the one label \<open>pothole detected by YOLO\<close>, whatever the image is; only
  \<open>processedImageUrl\<close>, which is not empty, comes from the remote response.
\<close>

theorem successful_call_fields:
  assumes "detect_try parse rem imageFile token = Some (Inr result)"
  shows "detectIssueWithAI parse rem imageFile token random = Some (Inr result) \<and>
         category result = Some ''pothole'' \<and>
         department result = Some ''Road Maintenance'' \<and>
         confidence result = Some (17 / 20) \<and>
         detectedLabels result = Some [''pothole detected by YOLO''] \<and>
         (\<exists>u. u \<noteq> [] \<and> processedImageUrl result = Some u)"
  using assms detect_try_fields [OF assms] by (simp add: detectIssueWithAI_def)

text \<open>The two-frame stream, end to end.\<close>

theorem successful_call_fields_witness:
  "detectIssueWithAI parse_stub (streaming_stub two_frames) photo_jpg None draws_half =
     Some (Inr \<lparr> category = Some ''pothole'',
                 department = Some ''Road Maintenance'',
                 confidence = Some (17 / 20),
                 detectedLabels = Some [''pothole detected by YOLO''],
                 processedImageUrl = Some (BASE @ ''/file=/tmp/out.jpg'') \<rparr>)"
proof -
  have h: "detect_try parse_stub (streaming_stub two_frames) photo_jpg None =
     Some (Inr \<lparr> category = Some ''pothole'',
                 department = Some ''Road Maintenance'',
                 confidence = Some (17 / 20),
                 detectedLabels = Some [''pothole detected by YOLO''],
                 processedImageUrl = Some (BASE @ ''/file=/tmp/out.jpg'') \<rparr>)"
    by (rule try_two_frames)
  show ?thesis using successful_call_fields [OF h, of draws_half] by simp
qed










text \<open>A frame that does not parse is skipped: it is no failure of the detection.\<close>

lemma frame_parse_error_ignored: "parse payload = None \<Longrightarrow> frame_url parse found payload = None"
  by (simp add: frame_url_def)





text \<open>
  C10. The file is named \<open>pothole_test.jpg\<close> and every step of the remote service fails
  (each \<open>fetch\<close> rejects or answers with a status that is not ok). Then the detection
  returns a result with category \<open>pothole\<close> and department \<open>Road Maintenance\<close>.
\<close>

theorem pothole_test_fallback:
  assumes "name imageFile = ''pothole_test.jpg''"
    and "\<And>f h response. upload_ep rem f h = Some response \<Longrightarrow> \<not> ok response"
    and "\<And>p u h response. predict_ep rem p u h = Some response \<Longrightarrow> \<not> ok response"
    and "\<And>e h response. result_ep rem e h = Some response \<Longrightarrow> \<not> ok response"
  shows "\<exists>result. detectIssueWithAI parse rem imageFile token random = Some (Inr result) \<and>
                  category result = Some ''pothole'' \<and>
                  department result = Some ''Road Maintenance''"
proof -
  have "\<exists>e. uploadImageToGradio rem imageFile token = Inl e"
    using assms(2) by (auto simp: uploadImageToGradio_def split: option.splits)
  then have "detectIssueWithAI parse rem imageFile token random =
               Some (Inr (mockAIDetection imageFile random))"
    by (auto simp: detectIssueWithAI_def detect_try_def)
  moreover have "toLowerCase ''pothole_test.jpg'' = ''pothole_test.jpg''"
    by code_simp
  then have "includes_str (toLowerCase (name imageFile)) ''pothole''"
    using assms(1) includes_str_infix [of "[]" "''pothole''" "''_test.jpg''"] by simp
  then have "category (mockAIDetection imageFile random) = Some ''pothole'' \<and>
             department (mockAIDetection imageFile random) = Some ''Road Maintenance''"
    by (simp add: mockAIDetection_def Let_def DEPARTMENT_MAP_def to_key_def)
  ultimately show ?thesis by simp
qed

text \<open>The unreachable service.\<close>

theorem pothole_test_fallback_witness:
  "\<exists>result. detectIssueWithAI parse_stub rejecting_stub pothole_test_jpg None draws_half =
              Some (Inr result) \<and>
            category result = Some ''pothole'' \<and>
            department result = Some ''Road Maintenance''"
proof -
  have n: "name pothole_test_jpg = ''pothole_test.jpg''"
    by (simp add: pothole_test_jpg_def)
  have u: "\<not> ok response" if "upload_ep rejecting_stub f h = Some response" for f h response
    using that by (simp add: rejecting_stub_def)
  have p: "\<not> ok response" if "predict_ep rejecting_stub q v h = Some response" for q v h response
    using that by (simp add: rejecting_stub_def)
  have r: "\<not> ok response" if "result_ep rejecting_stub e h = Some response" for e h response
    using that by (simp add: rejecting_stub_def)
  show ?thesis
    by (rule pothole_test_fallback [OF n u p r])
qed

text \<open>
  C9, as amended. Two detections of the same image with the same credential against the
  same deterministic service return the same, whatever \<open>Math.random\<close> draws, when the
  \<open>try\<close> block does not fail; in general they return the same when the first two draws
  of \<open>Math.random\<close> are the same in both.
\<close>

theorem draws_matter_only_in_fallback:
  "((\<forall>e. detect_try parse rem imageFile token \<noteq> Some (Inl e)) \<longrightarrow>
      detectIssueWithAI parse rem imageFile token random =
      detectIssueWithAI parse rem imageFile token random') \<and>
   (random 0 = random' 0 \<and> random 1 = random' 1 \<longrightarrow>
      detectIssueWithAI parse rem imageFile token random =
      detectIssueWithAI parse rem imageFile token random')"
proof (intro conjI impI)
  assume "\<forall>e. detect_try parse rem imageFile token \<noteq> Some (Inl e)"
  then show "detectIssueWithAI parse rem imageFile token random =
             detectIssueWithAI parse rem imageFile token random'"
    by (auto simp: detectIssueWithAI_def split: option.splits sum.splits)
next
  assume "random 0 = random' 0 \<and> random 1 = random' 1"
  then have "mockAIDetection imageFile random = mockAIDetection imageFile random'"
    using mock_draws [of random random' imageFile] by blast
  then show "detectIssueWithAI parse rem imageFile token random =
             detectIssueWithAI parse rem imageFile token random'"
    by (simp add: detectIssueWithAI_def split: option.splits sum.splits)
qed

text \<open>
  A detection that succeeds, under two different sequences of draws; and a fallback, under
  two sequences that differ from the third draw on.
\<close>

theorem draws_matter_only_in_fallback_witness:
  "detectIssueWithAI parse_stub (streaming_stub two_frames) photo_jpg None draws_zero =
   detectIssueWithAI parse_stub (streaming_stub two_frames) photo_jpg None draws_half \<and>
   detectIssueWithAI parse_stub rejecting_stub photo_jpg None draws_half =
   detectIssueWithAI parse_stub rejecting_stub photo_jpg None
     (\<lambda>k. if k < 2 then 1 / 2 else 0)"
proof -
  have h: "detect_try parse_stub (streaming_stub two_frames) photo_jpg None =
     Some (Inr \<lparr> category = Some ''pothole'',
                 department = Some ''Road Maintenance'',
                 confidence = Some (17 / 20),
                 detectedLabels = Some [''pothole detected by YOLO''],
                 processedImageUrl = Some (BASE @ ''/file=/tmp/out.jpg'') \<rparr>)"
    by (rule try_two_frames)
  show ?thesis
    using h
      draws_matter_only_in_fallback
        [of parse_stub "streaming_stub two_frames" photo_jpg None draws_zero draws_half]
      draws_matter_only_in_fallback
        [of parse_stub rejecting_stub photo_jpg None draws_half "\<lambda>k. if k < 2 then 1 / 2 else 0"]
    by (simp add: draws_half_def)
qed

text \<open>
  C9 as stated fails: against the unreachable service, which is deterministic, two
  detections of the same image differ when \<open>Math.random\<close> draws 0 in one and one half
  in the other, because the confidence of the mock classifier is drawn.
\<close>

theorem fallback_depends_on_draws:
  "detectIssueWithAI parse_stub rejecting_stub pothole_test_jpg None draws_zero \<noteq>
   detectIssueWithAI parse_stub rejecting_stub pothole_test_jpg None draws_half"
  by code_simp

end
